theory Spec2Isabelle
  imports Main
begin

section \<open>Text\<close>

text \<open>
  A Python \<open>str\<close> is a sequence of Unicode code points, a \<open>bytes\<close> value a sequence of
  octets. Code points are natural numbers; octets are HOL characters, which are exactly
  the values 0 to 255. \<open>py\<close> reads an ASCII literal of the source as a \<open>str\<close>.
\<close>

type_synonym codepoint = nat
type_synonym pystr = "codepoint list"
type_synonym pybytes = "char list"

definition py :: "string \<Rightarrow> pystr" where
  "py s = map of_char s"

text \<open>
  \<open>str.isspace\<close> on one code point; the same set decides \<open>\s\<close> of a \<open>str\<close> pattern and
  what \<open>str.strip()\<close> removes.
\<close>

definition py_isspace :: "codepoint \<Rightarrow> bool" where
  "py_isspace c \<longleftrightarrow>
     (9 \<le> c \<and> c \<le> 13) \<or> (28 \<le> c \<and> c \<le> 32) \<or> c = 133 \<or> c = 160 \<or> c = 5760 \<or>
     (8192 \<le> c \<and> c \<le> 8202) \<or> c = 8232 \<or> c = 8233 \<or> c = 8239 \<or> c = 8287 \<or> c = 12288"

definition py_strip :: "pystr \<Rightarrow> pystr" where
  "py_strip s = rev (dropWhile py_isspace (rev (dropWhile py_isspace s)))"

text \<open>\<open>s.split(d)\<close> for a one-character separator: never empty, one piece more than separators.\<close>

fun split_on :: "codepoint \<Rightarrow> pystr \<Rightarrow> pystr list" where
  "split_on d [] = [[]]"
| "split_on d (c # cs) =
     (if c = d then [] # split_on d cs
      else (case split_on d cs of [] \<Rightarrow> [[c]] | x # xs \<Rightarrow> (c # x) # xs))"

section \<open>The regular expressions of the tool\<close>

text \<open>
  The four patterns of \<open>embed_scripts.py\<close> are sequences of three kinds of item: a literal,
  a literal under \<open>re.IGNORECASE\<close>, and a greedy repetition of a character class
  (\<open>\s*\<close>, \<open>\s+\<close>, \<open>[^}]*\<close>, \<open>.*\<close>) with its minimum count. Each item carries the number of
  the capture group it lies in (0 for none).
\<close>

datatype atom = Lit pystr | LitI pystr | Many nat "codepoint \<Rightarrow> bool"

type_synonym pattern = "(nat \<times> atom) list"
type_synonym rematch = "(nat \<times> pystr) list"

text \<open>
  Case-insensitive comparison of a pattern character (an ASCII character here) with a
  character of the text: equal after lowering, with the extra equivalences of the
  \<open>re\<close> module for \<open>i\<close>, \<open>s\<close> and \<open>k\<close> (U+0130, U+0131, U+017F, U+212A).
\<close>

definition ci_eq :: "codepoint \<Rightarrow> codepoint \<Rightarrow> bool" where
  "ci_eq p c \<longleftrightarrow>
     c = p \<or>
     (97 \<le> p \<and> p \<le> 122 \<and> c + 32 = p) \<or>
     (65 \<le> p \<and> p \<le> 90 \<and> c = p + 32) \<or>
     ((p = 105 \<or> p = 73) \<and> (c = 304 \<or> c = 305)) \<or>
     ((p = 115 \<or> p = 83) \<and> c = 383) \<or>
     ((p = 107 \<or> p = 75) \<and> c = 8490)"

definition starts_with :: "pystr \<Rightarrow> pystr \<Rightarrow> bool" where
  "starts_with l s \<longleftrightarrow> take (length l) s = l"

definition starts_with_ci :: "pystr \<Rightarrow> pystr \<Rightarrow> bool" where
  "starts_with_ci l s \<longleftrightarrow> length l \<le> length s \<and> list_all2 ci_eq l (take (length l) s)"

text \<open>
  A greedy repetition first takes as many characters as the class allows and gives them
  back one at a time until the rest of the pattern matches: \<open>backtrack try lo k\<close> tries
  the counts \<open>k\<close>, \<open>k - 1\<close>, ..., \<open>lo\<close> in this order.
\<close>

fun backtrack :: "(nat \<Rightarrow> 'a option) \<Rightarrow> nat \<Rightarrow> nat \<Rightarrow> 'a option" where
  "backtrack try lo 0 = (if lo = 0 then try 0 else None)"
| "backtrack try lo (Suc k) =
     (if Suc k < lo then None
      else (case try (Suc k) of Some r \<Rightarrow> Some r | None \<Rightarrow> backtrack try lo k))"

text \<open>
  \<open>rmatch p s\<close> is \<open>re.match\<close>: the pattern applied at the start of \<open>s\<close>. A match is the
  text each item consumed, tagged with the item's group, together with the text left.
\<close>

fun rmatch :: "pattern \<Rightarrow> pystr \<Rightarrow> (rematch \<times> pystr) option" where
  "rmatch [] s = Some ([], s)"
| "rmatch ((g, Lit l) # as) s =
     (if starts_with l s
      then (case rmatch as (drop (length l) s) of
              Some (m, r) \<Rightarrow> Some ((g, l) # m, r)
            | None \<Rightarrow> None)
      else None)"
| "rmatch ((g, LitI l) # as) s =
     (if starts_with_ci l s
      then (case rmatch as (drop (length l) s) of
              Some (m, r) \<Rightarrow> Some ((g, take (length l) s) # m, r)
            | None \<Rightarrow> None)
      else None)"
| "rmatch ((g, Many lo P) # as) s =
     backtrack
       (\<lambda>k. case rmatch as (drop k s) of
               Some (m, r) \<Rightarrow> Some ((g, take k s) # m, r)
             | None \<Rightarrow> None)
       lo (length (takeWhile P s))"

text \<open>\<open>match.group(g)\<close> for \<open>g > 0\<close>, and \<open>match.group(0)\<close>, the whole matched text.\<close>

definition group :: "rematch \<Rightarrow> nat \<Rightarrow> pystr" where
  "group m g = concat (map snd (filter (\<lambda>t. fst t = g) m))"

definition matched :: "rematch \<Rightarrow> pystr" where
  "matched m = concat (map snd m)"

text \<open>\<open>re.search\<close>: the match at the leftmost position that has one.\<close>

fun re_search :: "pattern \<Rightarrow> pystr \<Rightarrow> rematch option" where
  "re_search p [] = map_option fst (rmatch p [])"
| "re_search p (c # cs) =
     (case rmatch p (c # cs) of Some (m, r) \<Rightarrow> Some m | None \<Rightarrow> re_search p cs)"

text \<open>
  \<open>re.sub(pattern, repl, s)\<close> with a function \<open>repl\<close>: the text is scanned from the left,
  every match found is replaced by what \<open>repl\<close> returns for it (taken as it is), and the
  scan goes on behind the match. After an empty match the next character is copied.
  \<open>re_finditer\<close> lists the matches the same scan finds.
\<close>

function re_sub :: "pattern \<Rightarrow> (rematch \<Rightarrow> pystr) \<Rightarrow> pystr \<Rightarrow> pystr" where
  "re_sub p repl s =
     (case rmatch p s of
        Some (m, r) \<Rightarrow>
          if length r < length s then repl m @ re_sub p repl r
          else (case s of [] \<Rightarrow> repl m | c # cs \<Rightarrow> repl m @ c # re_sub p repl cs)
      | None \<Rightarrow> (case s of [] \<Rightarrow> [] | c # cs \<Rightarrow> c # re_sub p repl cs))"
  by pat_completeness auto
termination
  by (relation "measure (\<lambda>(p, repl, s). length s)") auto

function re_finditer :: "pattern \<Rightarrow> pystr \<Rightarrow> rematch list" where
  "re_finditer p s =
     (case rmatch p s of
        Some (m, r) \<Rightarrow>
          if length r < length s then m # re_finditer p r
          else (case s of [] \<Rightarrow> [m] | c # cs \<Rightarrow> m # re_finditer p cs)
      | None \<Rightarrow> (case s of [] \<Rightarrow> [] | c # cs \<Rightarrow> re_finditer p cs))"
  by pat_completeness auto
termination
  by (relation "measure (\<lambda>(p, s). length s)") auto

section \<open>Metadata extractor\<close>

text \<open>
  \<open>parse_required_files\<close>: the patterns \<open>#\s*user_files:\s*(.*)\<close> and
  \<open>#\s*process_files:\s*(.*)\<close>, searched with \<open>re.IGNORECASE\<close>; \<open>.\<close> is any character
  but the line feed.
\<close>

definition user_files_regex :: pattern where
  "user_files_regex =
     [(0, LitI (py ''#'')), (0, Many 0 py_isspace), (0, LitI (py ''user_files:'')),
      (0, Many 0 py_isspace), (1, Many 0 (\<lambda>c. c \<noteq> 10))]"

definition process_files_regex :: pattern where
  "process_files_regex =
     [(0, LitI (py ''#'')), (0, Many 0 py_isspace), (0, LitI (py ''process_files:'')),
      (0, Many 0 py_isspace), (1, Many 0 (\<lambda>c. c \<noteq> 10))]"

definition file_list :: "rematch option \<Rightarrow> pystr list" where
  "file_list mo =
     (case mo of
        None \<Rightarrow> []
      | Some m \<Rightarrow>
          if group m 1 \<noteq> []
          then map py_strip (filter (\<lambda>f. py_strip f \<noteq> []) (split_on 44 (group m 1)))
          else [])"

definition parse_required_files :: "pystr \<Rightarrow> pystr list \<times> pystr list" where
  "parse_required_files script_content =
     (let user_files_match = re_search user_files_regex script_content;
          process_files_match = re_search process_files_regex script_content
      in (file_list user_files_match, file_list process_files_match))"

section \<open>Encoder\<close>

text \<open>
  \<open>content.encode('utf-8')\<close>: one to four octets per code point; a surrogate cannot be
  encoded and raises \<open>UnicodeEncodeError\<close> (the value \<open>None\<close>).
\<close>

definition utf8_char :: "codepoint \<Rightarrow> pybytes option" where
  "utf8_char c =
     (if c < 128 then Some [char_of c]
      else if c < 2048 then Some [char_of (192 + c div 64), char_of (128 + c mod 64)]
      else if 55296 \<le> c \<and> c < 57344 then None
      else if c < 65536 then
        Some [char_of (224 + c div 4096), char_of (128 + c div 64 mod 64),
              char_of (128 + c mod 64)]
      else if c < 1114112 then
        Some [char_of (240 + c div 262144), char_of (128 + c div 4096 mod 64),
              char_of (128 + c div 64 mod 64), char_of (128 + c mod 64)]
      else None)"

fun utf8_encode :: "pystr \<Rightarrow> pybytes option" where
  "utf8_encode [] = Some []"
| "utf8_encode (c # cs) =
     (case utf8_char c of
        None \<Rightarrow> None
      | Some b \<Rightarrow> (case utf8_encode cs of None \<Rightarrow> None | Some bs \<Rightarrow> Some (b @ bs)))"

text \<open>\<open>base64.b64encode\<close>: three octets become four characters of the alphabet, padded with \<open>=\<close>.\<close>

definition b64_alphabet :: pybytes where
  "b64_alphabet = ''ABCDEFGHIJKLMNOPQRSTUVWXYZabcdefghijklmnopqrstuvwxyz0123456789+/''"

definition b64_char :: "nat \<Rightarrow> char" where
  "b64_char n = b64_alphabet ! n"

fun b64encode :: "pybytes \<Rightarrow> pybytes" where
  "b64encode [] = []"
| "b64encode [a] =
     (let x = of_char a
      in [b64_char (x div 4), b64_char (x mod 4 * 16), CHR ''='', CHR ''=''])"
| "b64encode [a, b] =
     (let x = of_char a; y = of_char b
      in [b64_char (x div 4), b64_char (x mod 4 * 16 + y div 16), b64_char (y mod 16 * 4),
          CHR ''=''])"
| "b64encode (a # b # c # rest) =
     (let x = of_char a; y = of_char b; z = of_char c
      in [b64_char (x div 4), b64_char (x mod 4 * 16 + y div 16),
          b64_char (y mod 16 * 4 + z div 64), b64_char (z mod 64)] @ b64encode rest)"

text \<open>\<open>bytes.decode('ascii')\<close>: raises on an octet above 127.\<close>

definition ascii_decode :: "pybytes \<Rightarrow> pystr option" where
  "ascii_decode bs =
     (if list_all (\<lambda>b. (of_char b :: nat) < 128) bs then Some (map of_char bs) else None)"

text \<open>The transport encoding of a script's text, line 48 of the source.\<close>

definition encode_content :: "pystr \<Rightarrow> pystr option" where
  "encode_content content =
     (case utf8_encode content of
        None \<Rightarrow> None
      | Some bs \<Rightarrow> ascii_decode (b64encode bs))"

subsection \<open>The decoding the specification asks for\<close>

text \<open>
  The specification's \<open>decode\<close>: the standard inverse of the transport encoding, that is
  Base64 decoding (RFC 4648, with padding) followed by strict UTF-8 decoding. It is not
  part of the Python source.
\<close>

fun index_of :: "'a \<Rightarrow> 'a list \<Rightarrow> nat option" where
  "index_of x [] = None"
| "index_of x (y # ys) = (if x = y then Some 0 else map_option Suc (index_of x ys))"

definition b64_index :: "char \<Rightarrow> nat option" where
  "b64_index c = index_of c b64_alphabet"

definition b64_quad :: "char \<Rightarrow> char \<Rightarrow> char \<Rightarrow> char \<Rightarrow> bool \<Rightarrow> pybytes option" where
  "b64_quad a b c d final =
     (case (b64_index a, b64_index b) of
        (Some p, Some q) \<Rightarrow>
          if final \<and> c = CHR ''='' \<and> d = CHR ''='' then Some [char_of (p * 4 + q div 16)]
          else (case b64_index c of
                  None \<Rightarrow> None
                | Some r \<Rightarrow>
                    if final \<and> d = CHR ''=''
                    then Some [char_of (p * 4 + q div 16), char_of (q mod 16 * 16 + r div 4)]
                    else (case b64_index d of
                            None \<Rightarrow> None
                          | Some t \<Rightarrow>
                              Some [char_of (p * 4 + q div 16),
                                    char_of (q mod 16 * 16 + r div 4),
                                    char_of (r mod 4 * 64 + t)]))
      | _ \<Rightarrow> None)"

fun b64decode :: "pybytes \<Rightarrow> pybytes option" where
  "b64decode [] = Some []"
| "b64decode (a # b # c # d # rest) =
     (case b64_quad a b c d (rest = []) of
        None \<Rightarrow> None
      | Some bs \<Rightarrow> (case b64decode rest of None \<Rightarrow> None | Some r \<Rightarrow> Some (bs @ r)))"
| "b64decode _ = None"

definition is_cont :: "nat \<Rightarrow> bool" where
  "is_cont b \<longleftrightarrow> 128 \<le> b \<and> b < 192"

text \<open>
  One character of strict UTF-8: the code point and the number of octets read. Overlong
  forms, surrogates, values above U+10FFFF, stray continuation octets and truncated
  sequences are refused.
\<close>

definition utf8_step :: "pybytes \<Rightarrow> (codepoint \<times> nat) option" where
  "utf8_step bs =
     (case map of_char bs of
        [] \<Rightarrow> None
      | b0 # r \<Rightarrow>
          if b0 < 128 then Some (b0, 1)
          else if 194 \<le> b0 \<and> b0 < 224 then
            (case r of
               b1 # _ \<Rightarrow> if is_cont b1 then Some ((b0 - 192) * 64 + (b1 - 128), 2) else None
             | _ \<Rightarrow> None)
          else if 224 \<le> b0 \<and> b0 < 240 then
            (case r of
               b1 # b2 # _ \<Rightarrow>
                 (let cp = (b0 - 224) * 4096 + (b1 - 128) * 64 + (b2 - 128)
                  in if is_cont b1 \<and> is_cont b2 \<and> 2048 \<le> cp \<and> \<not> (55296 \<le> cp \<and> cp < 57344)
                     then Some (cp, 3) else None)
             | _ \<Rightarrow> None)
          else if 240 \<le> b0 \<and> b0 < 245 then
            (case r of
               b1 # b2 # b3 # _ \<Rightarrow>
                 (let cp = (b0 - 240) * 262144 + (b1 - 128) * 4096 + (b2 - 128) * 64 + (b3 - 128)
                  in if is_cont b1 \<and> is_cont b2 \<and> is_cont b3 \<and> 65536 \<le> cp \<and> cp < 1114112
                     then Some (cp, 4) else None)
             | _ \<Rightarrow> None)
          else None)"

function utf8_decode :: "pybytes \<Rightarrow> pystr option" where
  "utf8_decode bs =
     (if bs = [] then Some []
      else (case utf8_step bs of
              None \<Rightarrow> None
            | Some (c, n) \<Rightarrow>
                (case utf8_decode (drop n bs) of None \<Rightarrow> None | Some cs \<Rightarrow> Some (c # cs))))"
  by pat_completeness auto
termination
  by (relation "measure length")
     (auto simp: utf8_step_def Let_def split: list.splits if_splits)

definition decode_content :: "pystr \<Rightarrow> pystr option" where
  "decode_content t =
     (if list_all (\<lambda>c. c < 128) t
      then (case b64decode (map char_of t) of None \<Rightarrow> None | Some bs \<Rightarrow> utf8_decode bs)
      else None)"

section \<open>Script records and their serialisation\<close>

record script_info =
  name :: pystr
  content_b64 :: pystr
  userFiles :: "pystr list"
  processFiles :: "pystr list"

text \<open>
  \<open>json.dumps(scripts, indent=8)\<close> on a list of such dictionaries: \<open>ensure_ascii\<close> is on,
  the item separator is a comma followed by a line break and the indentation, the key
  separator a colon and a space; an empty list is \<open>[]\<close>.
\<close>

definition hex_digit :: "nat \<Rightarrow> codepoint" where
  "hex_digit n = (if n < 10 then 48 + n else 87 + n)"

definition u_escape :: "nat \<Rightarrow> pystr" where
  "u_escape n =
     [92, 117, hex_digit (n div 4096 mod 16), hex_digit (n div 256 mod 16),
      hex_digit (n div 16 mod 16), hex_digit (n mod 16)]"

definition json_escape_char :: "codepoint \<Rightarrow> pystr" where
  "json_escape_char c =
     (if c = 34 then [92, 34]
      else if c = 92 then [92, 92]
      else if c = 10 then [92, 110]
      else if c = 13 then [92, 114]
      else if c = 9 then [92, 116]
      else if c = 8 then [92, 98]
      else if c = 12 then [92, 102]
      else if 32 \<le> c \<and> c \<le> 126 then [c]
      else if c < 65536 then u_escape c
      else u_escape (55296 + (c - 65536) div 1024 mod 1024) @
           u_escape (56320 + (c - 65536) mod 1024))"

definition json_string :: "pystr \<Rightarrow> pystr" where
  "json_string s = [34] @ concat (map json_escape_char s) @ [34]"

definition newline_indent :: "nat \<Rightarrow> pystr" where
  "newline_indent level = 10 # replicate (8 * level) 32"

fun join :: "pystr \<Rightarrow> pystr list \<Rightarrow> pystr" where
  "join sep [] = []"
| "join sep [x] = x"
| "join sep (x # y # ys) = x @ sep @ join sep (y # ys)"

definition json_array :: "nat \<Rightarrow> pystr list \<Rightarrow> pystr" where
  "json_array level items =
     (if items = [] then py ''[]''
      else py ''['' @ newline_indent (Suc level) @
           join (py '','' @ newline_indent (Suc level)) items @
           newline_indent level @ py '']'')"

definition json_key :: "string \<Rightarrow> pystr" where
  "json_key k = json_string (py k) @ py '': ''"

definition json_script :: "nat \<Rightarrow> script_info \<Rightarrow> pystr" where
  "json_script level s =
     py ''{'' @ newline_indent (Suc level) @
     join (py '','' @ newline_indent (Suc level))
       [json_key ''name'' @ json_string (name s),
        json_key ''content_b64'' @ json_string (content_b64 s),
        json_key ''userFiles'' @ json_array (Suc level) (map json_string (userFiles s)),
        json_key ''processFiles'' @ json_array (Suc level) (map json_string (processFiles s))] @
     newline_indent level @ py ''}''"

definition json_dumps :: "script_info list \<Rightarrow> pystr" where
  "json_dumps scripts = json_array 0 (map (json_script 1) scripts)"

section \<open>Document patcher\<close>

definition scripts_js :: "script_info list \<Rightarrow> pystr" where
  "scripts_js scripts = py ''const embeddedScripts = '' @ json_dumps scripts @ py '';''"

text \<open>The loader routine, a constant of the source: an empty first line, then 49 lines.\<close>

definition decoder_function :: pystr where
  \<open>decoder_function = join [10] (map py
     ['''',
      ''        // Function to decode base64 embedded scripts'',
      ''        function loadEmbeddedScripts() {'',
      ''            if (typeof embeddedScripts === 'undefined' || embeddedScripts.length === 0) {'',
      ''                return;'',
      ''            }'',
      ''            '',
      ''            log(`Loading ${embeddedScripts.length} embedded Python script(s)...`);'',
      ''            '',
      ''            embeddedScripts.forEach(scriptData => {'',
      ''                try {'',
      ''                    // Decode base64 content'',
      ''                    const content = atob(scriptData.content_b64);'',
      ''                    '',
      ''                    // Create a File-like object for the script'',
      ''                    const blob = new Blob([content], { type: 'text/plain' });'',
      ''                    const file = new File([blob], scriptData.name, { '',
      ''                        lastModified: new Date().getTime() '',
      ''                    });'',
      ''                    '',
      ''                    // Add to pythonScripts array if not already present'',
      ''                    if (!pythonScripts.some(ps => ps.name === scriptData.name)) {'',
      ''                        const newScript = {'',
      ''                            name: scriptData.name,'',
      ''                            content: content,'',
      ''                            userFiles: scriptData.userFiles || [],'',
      ''                            processFiles: scriptData.processFiles || [],'',
      ''                            fileObject: file,'',
      ''                            id: `py-${scriptData.name.replace(/[^a-zA-Z0-9]/g, '-')}`'',
      ''                        };'',
      ''                        pythonScripts.push(newScript);'',
      ''                        log(`Loaded embedded script: ${scriptData.name} (User files: ${newScript.userFiles.join(', ') || 'none'}, Process files: ${newScript.processFiles.join(', ') || 'none'})`);'',
      ''                    }'',
      ''                } catch (error) {'',
      ''                    log(`Error loading embedded script ${scriptData.name}: ${error.message}`, 'error');'',
      ''                }'',
      ''            });'',
      ''            '',
      ''            // Sort scripts and update UI'',
      ''            pythonScripts.sort((a, b) => a.name.localeCompare(b.name));'',
      ''            updateScriptsList();'',
      ''            updateFileDropZone();'',
      ''            updateRunButtonState();'',
      ''            '',
      ''            // Hide script zone instructions since we have scripts'',
      ''            const scriptZoneInstructions = document.getElementById('scriptZoneInstructions');'',
      ''            if (scriptZoneInstructions) {'',
      ''                scriptZoneInstructions.style.display = 'none';'',
      ''            }'',
      ''        }''])\<close>

text \<open>
  The init-function anchor
  \<^verbatim>\<open>(function init\(\) {[^}]*)(log\(\'App initialized and ready\'\);)\<close>
  and the script-end anchor
  \<^verbatim>\<open>(        // Start the app\s+init\(\);\s+)(    </script>)\<close>.
  The flags \<open>re.MULTILINE | re.DOTALL\<close> of the second change nothing, as it has no \<open>^\<close>,
  \<open>$\<close> or \<open>.\<close>.
\<close>

definition init_function_pattern :: pattern where
  \<open>init_function_pattern =
     [(1, Lit (py ''function init() {'')), (1, Many 0 (\<lambda>c. c \<noteq> 125)),
      (2, Lit (py ''log('App initialized and ready');''))]\<close>

definition loader_call :: pystr where
  "loader_call = py ''loadEmbeddedScripts();'' @ [10] @ py ''            ''"

definition replace_init :: "rematch \<Rightarrow> pystr" where
  "replace_init m =
     (let before_log = group m 1; log_line = group m 2
      in before_log @ loader_call @ log_line)"

definition script_end_pattern :: pattern where
  "script_end_pattern =
     [(1, Lit (py ''        // Start the app'')), (1, Many 1 py_isspace),
      (1, Lit (py ''init();'')), (1, Many 1 py_isspace), (2, Lit (py ''    </script>''))]"

definition embedded_block :: "script_info list \<Rightarrow> pystr" where
  "embedded_block scripts =
     py ''        // Embedded Python Scripts Data'' @ [10] @ py ''        '' @
     scripts_js scripts @ [10, 10] @ decoder_function @ [10, 10] @ py ''        ''"

definition insert_embedded_code :: "script_info list \<Rightarrow> rematch \<Rightarrow> pystr" where
  "insert_embedded_code scripts m =
     (let before_script_end = group m 1; script_closing = group m 2
      in embedded_block scripts @ before_script_end @ script_closing)"

text \<open>Lines 151 and 152: the two substitutions, the second on the result of the first.\<close>

definition insert_block :: "script_info list \<Rightarrow> pystr \<Rightarrow> pystr" where
  "insert_block scripts html_content =
     re_sub script_end_pattern (insert_embedded_code scripts) html_content"

definition insert_call :: "pystr \<Rightarrow> pystr" where
  "insert_call html_content = re_sub init_function_pattern replace_init html_content"

definition patch_document :: "script_info list \<Rightarrow> pystr \<Rightarrow> pystr" where
  "patch_document scripts html_content = insert_call (insert_block scripts html_content)"

section \<open>The working directory and the run\<close>

text \<open>
  The working directory is its listing in enumeration order: a name and, for each entry,
  either the octets of a file or the fact that it cannot be opened for reading (a
  directory, a file without permission). Everything the tool prints is a message of
  \<open>stdout\<close>, one constructor per \<open>print\<close> of the source with the values it interpolates;
  \<open>ops\<close> records the file-system operations in the order they are made. Writing the
  output file always succeeds once its text is encoded (disk and permission failures on
  writing are outside the model).
\<close>

datatype node = File pybytes | Unreadable

datatype pyerror = OSError | UnicodeDecodeError | UnicodeEncodeError

datatype io_op = Op_exists pystr | Op_glob | Op_read pystr | Op_write pystr

datatype message =
    Collected pystr "pystr list" "pystr list"
  | Error_reading pystr pyerror
  | Target_not_found
  | No_scripts_found
  | Created pystr nat
  | Success pystr
  | Script_line pystr
  | Open_hint pystr

text \<open>
  The standard output stream encodes what is printed, and which texts its encoding can
  hold depends on the environment of the run (UTF-8, ASCII, a code page): the world says,
  in \<open>stdout_accepts\<close>, which messages the stream encodes.
\<close>

record world =
  listing :: "(pystr \<times> node) list"
  stdout :: "message list"
  ops :: "io_op list"
  stdout_accepts :: "message \<Rightarrow> bool"

text \<open>
  The messages whose whole text is fixed in the source; they are ASCII (the output file
  name they interpolate is the constant \<open>BrowserBox_with_scripts.html\<close>), which the stream
  always encodes. The other three interpolate a file name or marker values.
\<close>

fun fixed_text :: "message \<Rightarrow> bool" where
  "fixed_text (Collected n user_files process_files) = False"
| "fixed_text (Error_reading n e) = False"
| "fixed_text (Script_line n) = False"
| "fixed_text Target_not_found = True"
| "fixed_text No_scripts_found = True"
| "fixed_text (Created out k) = True"
| "fixed_text (Success out) = True"
| "fixed_text (Open_hint out) = True"

text \<open>
  A statement of the source that may raise: the exception that ended it, if any, and the
  world it leaves. \<open>print\<close> raises \<open>UnicodeEncodeError\<close>, before anything is written, on a text
  the stream cannot encode.
\<close>

definition print :: "message \<Rightarrow> world \<Rightarrow> pyerror option \<times> world" where
  "print m w =
     (if fixed_text m \<or> stdout_accepts w m then (None, w\<lparr>stdout := stdout w @ [m]\<rparr>)
      else (Some UnicodeEncodeError, w))"

definition log_op :: "io_op \<Rightarrow> world \<Rightarrow> world" where
  "log_op ev w = w\<lparr>ops := ops w @ [ev]\<rparr>"

text \<open>
  \<open>open(path, 'r', encoding='utf-8').read()\<close>: strict UTF-8 decoding, then the universal
  newline translation of text mode (\<open>\r\n\<close> and \<open>\r\<close> become \<open>\n\<close>).
\<close>

fun universal_newlines :: "pystr \<Rightarrow> pystr" where
  "universal_newlines [] = []"
| "universal_newlines [c] = [if c = 13 then 10 else c]"
| "universal_newlines (c # d # cs) =
     (if c = 13 \<and> d = 10 then 10 # universal_newlines cs
      else if c = 13 then 10 # universal_newlines (d # cs)
      else c # universal_newlines (d # cs))"

definition read_text :: "node \<Rightarrow> pyerror + pystr" where
  "read_text nd =
     (case nd of
        Unreadable \<Rightarrow> Inl OSError
      | File bs \<Rightarrow>
          (case utf8_decode bs of
             None \<Rightarrow> Inl UnicodeDecodeError
           | Some cs \<Rightarrow> Inr (universal_newlines cs)))"

subsection \<open>Scanner\<close>

text \<open>\<open>Path(directory).glob('*.py')\<close>: the entries whose name ends in \<open>.py\<close>.\<close>

definition glob_py :: "pystr \<Rightarrow> bool" where
  "glob_py n \<longleftrightarrow> 3 \<le> length n \<and> drop (length n - 3) n = py ''.py''"

definition self_name :: pystr where
  "self_name = py ''embed_scripts.py''"

text \<open>
  Lines 41 to 56, the body of the \<open>try\<close> of \<open>collect_python_scripts\<close> for one file up to the
  record that line 57 appends.
\<close>

definition script_record :: "pystr \<Rightarrow> node \<Rightarrow> pyerror + script_info" where
  "script_record n nd =
     (case read_text nd of
        Inl e \<Rightarrow> Inl e
      | Inr content \<Rightarrow>
          (let (user_files, process_files) = parse_required_files content
           in case utf8_encode content of
                None \<Rightarrow> Inl UnicodeEncodeError
              | Some bs \<Rightarrow>
                  (case ascii_decode (b64encode bs) of
                     None \<Rightarrow> Inl UnicodeDecodeError
                   | Some b64 \<Rightarrow>
                       Inr \<lparr>name = n, content_b64 = b64, userFiles = user_files,
                            processFiles = process_files\<rparr>)))"

text \<open>
  Lines 40 to 61, the \<open>try\<close> statement for one file: the exception that leaves it, if any,
  the list \<open>scripts\<close> and the world after it. The \<open>print\<close> of line 58 is inside the \<open>try\<close>, after
  the \<open>append\<close>: when it raises, the record stays in the list and the handler runs. The
  handler's own \<open>print\<close> (line 61) is not protected: when it raises, the exception leaves
  the function.
\<close>

definition try_file ::
  "pystr \<Rightarrow> node \<Rightarrow> script_info list \<Rightarrow> world \<Rightarrow> pyerror option \<times> script_info list \<times> world" where
  "try_file n nd scripts w =
     (let w1 = log_op (Op_read n) w
      in case script_record n nd of
           Inl e \<Rightarrow>
             (case print (Error_reading n e) w1 of (raised, w2) \<Rightarrow> (raised, scripts, w2))
         | Inr info \<Rightarrow>
             (case print (Collected n (userFiles info) (processFiles info)) w1 of
                (None, w2) \<Rightarrow> (None, scripts @ [info], w2)
              | (Some e, w2) \<Rightarrow>
                  (case print (Error_reading n e) w2 of
                     (raised, w3) \<Rightarrow> (raised, scripts @ [info], w3))))"

text \<open>The \<open>for\<close> loop of lines 36 to 61 and the \<open>return\<close> of line 63.\<close>

fun collect_loop ::
  "(pystr \<times> node) list \<Rightarrow> script_info list \<Rightarrow> world \<Rightarrow> (pyerror + script_info list) \<times> world" where
  "collect_loop [] scripts w = (Inr scripts, w)"
| "collect_loop ((n, nd) # rest) scripts w =
     (if n = self_name then collect_loop rest scripts w
      else (case try_file n nd scripts w of
              (Some e, scripts1, w1) \<Rightarrow> (Inl e, w1)
            | (None, scripts1, w1) \<Rightarrow> collect_loop rest scripts1 w1))"

definition collect_python_scripts :: "world \<Rightarrow> (pyerror + script_info list) \<times> world" where
  "collect_python_scripts w =
     collect_loop (filter (\<lambda>e. glob_py (fst e)) (listing w)) [] (log_op Op_glob w)"

subsection \<open>Patcher and writer\<close>

definition input_file :: pystr where
  "input_file = py ''BrowserBox.html''"

definition output_file :: pystr where
  "output_file = py ''BrowserBox_with_scripts.html''"

fun write_file :: "pystr \<Rightarrow> pybytes \<Rightarrow> (pystr \<times> node) list \<Rightarrow> (pystr \<times> node) list" where
  "write_file n bs [] = [(n, File bs)]"
| "write_file n bs ((k, v) # es) =
     (if k = n then (k, File bs) # es else (k, v) # write_file n bs es)"

text \<open>
  \<open>create_embedded_browserbox\<close>: an exception of the read or of the encoding of the
  written text is not caught and ends the run (\<open>Inl\<close>); opening the output file for
  writing has already emptied it when the text is encoded.
\<close>

definition create_embedded_browserbox ::
  "script_info list \<Rightarrow> world \<Rightarrow> (pyerror + pystr) \<times> world" where
  "create_embedded_browserbox scripts w =
     (let w1 = log_op (Op_read input_file) w
      in case map_of (listing w) input_file of
           None \<Rightarrow> (Inl OSError, w1)
         | Some nd \<Rightarrow>
             (case read_text nd of
                Inl e \<Rightarrow> (Inl e, w1)
              | Inr html_content \<Rightarrow>
                  (let patched = patch_document scripts html_content;
                       w2 = log_op (Op_write output_file) w1
                   in case utf8_encode patched of
                        None \<Rightarrow>
                          (Inl UnicodeEncodeError,
                           w2\<lparr>listing := write_file output_file [] (listing w2)\<rparr>)
                      | Some bs \<Rightarrow>
                          (case print (Created output_file (length scripts))
                                  (w2\<lparr>listing := write_file output_file bs (listing w2)\<rparr>) of
                             (Some e, w3) \<Rightarrow> (Inl e, w3)
                           | (None, w3) \<Rightarrow> (Inr output_file, w3)))))"

subsection \<open>Main\<close>

text \<open>Lines 180 and 181: one line per record; a \<open>print\<close> that raises ends the loop.\<close>

fun print_names :: "script_info list \<Rightarrow> world \<Rightarrow> pyerror option \<times> world" where
  "print_names [] w = (None, w)"
| "print_names (script # rest) w =
     (case print (Script_line (name script)) w of
        (Some e, w1) \<Rightarrow> (Some e, w1)
      | (None, w1) \<Rightarrow> print_names rest w1)"

text \<open>The run: the exception that ended it, if any, and the world it leaves.\<close>

definition main :: "world \<Rightarrow> pyerror option \<times> world" where
  "main w =
     (let w1 = log_op (Op_exists input_file) w
      in if map_of (listing w) input_file = None
         then print Target_not_found w1
         else (case collect_python_scripts w1 of
                 (Inl e, w2) \<Rightarrow> (Some e, w2)
               | (Inr scripts, w2) \<Rightarrow>
                   if scripts = []
                   then print No_scripts_found w2
                   else (case create_embedded_browserbox scripts w2 of
                           (Inl e, w3) \<Rightarrow> (Some e, w3)
                         | (Inr out, w3) \<Rightarrow>
                             (case print (Success out) w3 of
                                (Some e, w4) \<Rightarrow> (Some e, w4)
                              | (None, w4) \<Rightarrow>
                                  (case print_names scripts w4 of
                                     (Some e, w5) \<Rightarrow> (Some e, w5)
                                   | (None, w5) \<Rightarrow> print (Open_hint out) w5)))))"

section \<open>Notions used in the statements\<close>

text \<open>
  A text a UTF-8 file can hold: Unicode scalar values, that is code points up to U+10FFFF
  that are not surrogates.
\<close>

definition scalar :: "codepoint \<Rightarrow> bool" where
  "scalar c \<longleftrightarrow> c < 55296 \<or> (57344 \<le> c \<and> c < 1114112)"

definition valid_text :: "pystr \<Rightarrow> bool" where
  "valid_text cs = list_all scalar cs"

text \<open>
  The entries the scanner visits, whether an entry can be read as text, and what the
  collection prints for an entry.
\<close>

definition candidates :: "world \<Rightarrow> (pystr \<times> node) list" where
  "candidates w = filter (\<lambda>e. glob_py (fst e) \<and> fst e \<noteq> self_name) (listing w)"

definition readable :: "node \<Rightarrow> bool" where
  "readable nd = (case read_text nd of Inl err \<Rightarrow> False | Inr content \<Rightarrow> True)"

definition file_report :: "pystr \<times> node \<Rightarrow> message" where
  "file_report e =
     (case read_text (snd e) of
        Inl err \<Rightarrow> Error_reading (fst e) err
      | Inr content \<Rightarrow>
          Collected (fst e) (fst (parse_required_files content))
            (snd (parse_required_files content)))"

definition records :: "(pystr \<times> node) list \<Rightarrow> script_info list" where
  "records es =
     concat (map (\<lambda>e. case script_record (fst e) (snd e) of Inl err \<Rightarrow> [] | Inr info \<Rightarrow> [info]) es)"

text \<open>
  A stream that encodes to UTF-8 with the strict error handler (Python's default for the
  standard output) refuses exactly the texts that hold a surrogate code point. A file
  name holds one when the name on disk is not valid UTF-8 (octet \<open>0xFF\<close> is listed as
  U+DCFF); the marker values and the text of an exception are printed through \<open>repr\<close>,
  which escapes surrogates, so only the file name decides.
\<close>

fun utf8_stream :: "message \<Rightarrow> bool" where
  "utf8_stream (Collected n user_files process_files) = valid_text n"
| "utf8_stream (Error_reading n e) = valid_text n"
| "utf8_stream (Script_line n) = valid_text n"
| "utf8_stream Target_not_found = True"
| "utf8_stream No_scripts_found = True"
| "utf8_stream (Created out k) = True"
| "utf8_stream (Success out) = True"
| "utf8_stream (Open_hint out) = True"

text \<open>Example directories.\<close>

definition dir_without_target :: world where
  "dir_without_target =
     \<lparr>listing = [(py ''greet.py'', File ''print(1)'')], stdout = [], ops = [],
      stdout_accepts = utf8_stream\<rparr>"


definition example_page :: pybytes where
  \<open>example_page =
     ''<script>\<newline>        function init() {\<newline>            log('App initialized and ready');\<newline>        }\<newline>'' @
     ''        // Start the app\<newline>        init();\<newline>    </script>\<newline>''\<close>

text \<open>
  A project directory: the target document, the tool itself, a script with a marker
  comment, a file that is not a script, a script that is not UTF-8 and one that cannot be
  opened.
\<close>

definition project_dir :: world where
  "project_dir =
     \<lparr>listing = [(py ''BrowserBox.html'', File example_page),
                (py ''embed_scripts.py'', File ''pass''),
                (py ''greet.py'', File ''# user_files: data.csv\<newline>print(1)''),
                (py ''notes.txt'', File ''todo''),
                (py ''broken.py'', File [CHR 0xFF]),
                (py ''locked.py'', Unreadable)],
      stdout = [], ops = [], stdout_accepts = utf8_stream\<rparr>"

text \<open>
  The same target document and the same scripts in a directory that also holds an output
  document of an earlier run and no notes, after earlier output, with a stream that
  encodes everything.
\<close>

definition project_dir_later :: world where
  "project_dir_later =
     \<lparr>listing = [(py ''BrowserBox_with_scripts.html'', File ''old''),
                (py ''embed_scripts.py'', File ''pass''),
                (py ''greet.py'', File ''# user_files: data.csv\<newline>print(1)''),
                (py ''broken.py'', File [CHR 0xFF]),
                (py ''BrowserBox.html'', File example_page),
                (py ''locked.py'', Unreadable)],
      stdout = [No_scripts_found], ops = [Op_glob], stdout_accepts = (\<lambda>m. True)\<rparr>"


text \<open>Two directories with the same entries, enumerated in another order.\<close>

definition anchor_page :: pybytes where
  "anchor_page = ''        // Start the app\<newline>        init();\<newline>    </script>''"

definition dir_ab :: world where
  "dir_ab =
     \<lparr>listing = [(py ''BrowserBox.html'', File anchor_page),
                (py ''a.py'', File ''x''), (py ''b.py'', File ''x'')],
      stdout = [], ops = [], stdout_accepts = utf8_stream\<rparr>"

definition dir_ba :: world where
  "dir_ba =
     \<lparr>listing = [(py ''BrowserBox.html'', File anchor_page),
                (py ''b.py'', File ''x''), (py ''a.py'', File ''x'')],
      stdout = [], ops = [], stdout_accepts = utf8_stream\<rparr>"

declare re_sub.simps [simp del] re_finditer.simps [simp del] utf8_decode.simps [simp del]

section \<open>The transport encoding\<close>

subsection \<open>UTF-8\<close>



lemma of_char_less_256: "(of_char c :: nat) < 256"
proof -
  have "(of_char c :: nat) mod 256 < 256" by simp
  then show ?thesis by (simp only: of_char_mod_256)
qed

lemma utf8_char_None_iff: "utf8_char c = None \<longleftrightarrow> \<not> scalar c"
  by (auto simp: scalar_def utf8_char_def)

lemma utf8_char_Some_scalar: "utf8_char c = Some b \<Longrightarrow> scalar c"
  using utf8_char_None_iff [of c] by auto

lemma utf8_encode_None_iff: "utf8_encode cs = None \<longleftrightarrow> \<not> valid_text cs"
  by (induction cs)
     (auto simp: valid_text_def utf8_char_None_iff split: option.splits
           dest: utf8_char_Some_scalar)

lemma radix3:
  fixes c :: nat
  assumes "d0 = d1 * 64 + m1" "c = d0 * 64 + m0"
  shows "d1 * 4096 + m1 * 64 + m0 = c"
  using assms by (simp add: algebra_simps)

lemma radix4:
  fixes c :: nat
  assumes "d1 = d2 * 64 + m2" "d0 = d1 * 64 + m1" "c = d0 * 64 + m0"
  shows "d2 * 262144 + m2 * 4096 + m1 * 64 + m0 = c"
  using assms by (simp add: algebra_simps)

lemma utf8_step_char:
  assumes "utf8_char c = Some b"
  shows "utf8_step (b @ rest) = Some (c, length b)"
proof -
  consider (one) "c < 128"
    | (two) "128 \<le> c" "c < 2048"
    | (three) "2048 \<le> c" "c < 65536" "\<not> (55296 \<le> c \<and> c < 57344)"
    | (four) "65536 \<le> c" "c < 1114112"
    using assms by (auto simp: utf8_char_def split: if_splits)
  then show ?thesis
  proof cases
    case one
    then have "b = [char_of c]" using assms by (simp add: utf8_char_def)
    then show ?thesis using one by (simp add: utf8_step_def)
  next
    case two
    then have b: "b = [char_of (192 + c div 64), char_of (128 + c mod 64)]"
      using assms by (simp add: utf8_char_def)
    have d: "2 \<le> c div 64" "c div 64 < 32"
      using two by (simp_all add: div_less_iff_less_mult less_eq_div_iff_mult_less_eq)
    have m: "(192 + c div 64) mod 256 = 192 + c div 64" "(128 + c mod 64) mod 256 = 128 + c mod 64"
      using d by simp_all
    have r: "c div 64 * 64 + c mod 64 = c" by simp
    show ?thesis using d r by (simp add: b utf8_step_def m is_cont_def)
  next
    case three
    then have b: "b = [char_of (224 + c div 4096), char_of (128 + c div 64 mod 64),
                       char_of (128 + c mod 64)]"
      using assms by (auto simp: utf8_char_def)
    have d: "c div 4096 < 16" using three by (simp add: div_less_iff_less_mult)
    have m: "(224 + c div 4096) mod 256 = 224 + c div 4096"
      "(128 + c div 64 mod 64) mod 256 = 128 + c div 64 mod 64"
      "(128 + c mod 64) mod 256 = 128 + c mod 64"
      using d by simp_all
    have e: "c div 4096 = c div 64 div 64" using div_mult2_eq [of c 64 64] by simp
    have r: "c div 4096 * 4096 + c div 64 mod 64 * 64 + c mod 64 = c"
      unfolding e
      by (rule radix3 [where ?d0.0 = "c div 64"]) simp_all
    have s: "utf8_step (b @ rest) =
      (let cp = c div 4096 * 4096 + c div 64 mod 64 * 64 + c mod 64
       in if 2048 \<le> cp \<and> \<not> (55296 \<le> cp \<and> cp < 57344) then Some (cp, 3) else None)"
      using d by (simp add: b utf8_step_def m is_cont_def)
    show ?thesis unfolding s r using three by (simp add: b)
  next
    case four
    then have b: "b = [char_of (240 + c div 262144), char_of (128 + c div 4096 mod 64),
                       char_of (128 + c div 64 mod 64), char_of (128 + c mod 64)]"
      using assms by (auto simp: utf8_char_def)
    have d: "c div 262144 < 5" using four by (simp add: div_less_iff_less_mult)
    have m: "(240 + c div 262144) mod 256 = 240 + c div 262144"
      "(128 + c div 4096 mod 64) mod 256 = 128 + c div 4096 mod 64"
      "(128 + c div 64 mod 64) mod 256 = 128 + c div 64 mod 64"
      "(128 + c mod 64) mod 256 = 128 + c mod 64"
      using d by simp_all
    have e1: "c div 4096 = c div 64 div 64" using div_mult2_eq [of c 64 64] by simp
    have e2: "c div 262144 = c div 64 div 64 div 64"
      using div_mult2_eq [of c 4096 64] e1 by simp
    have r: "c div 262144 * 262144 + c div 4096 mod 64 * 4096 + c div 64 mod 64 * 64
            + c mod 64 = c"
      unfolding e2 e1
      by (rule radix4 [where ?d0.0 = "c div 64" and ?d1.0 = "c div 64 div 64"]) simp_all
    have s: "utf8_step (b @ rest) =
      (let cp = c div 262144 * 262144 + c div 4096 mod 64 * 4096 + c div 64 mod 64 * 64 + c mod 64
       in if 65536 \<le> cp \<and> cp < 1114112 then Some (cp, 4) else None)"
      using d by (simp add: b utf8_step_def m is_cont_def)
    show ?thesis unfolding s r using four by (simp add: b)
  qed
qed

lemma utf8_char_nonempty: "utf8_char c = Some b \<Longrightarrow> b \<noteq> []"
  by (auto simp: utf8_char_def split: if_splits)

lemma utf8_decode_Nil: "utf8_decode [] = Some []"
  by (subst utf8_decode.simps) simp

lemma utf8_decode_encode: "utf8_encode cs = Some bs \<Longrightarrow> utf8_decode bs = Some cs"
proof (induction cs arbitrary: bs)
  case Nil
  then show ?case by (simp add: utf8_decode_Nil)
next
  case (Cons c cs)
  then obtain b bs' where b: "utf8_char c = Some b" and bs': "utf8_encode cs = Some bs'"
    and bs: "bs = b @ bs'"
    by (auto split: option.splits)
  have "utf8_decode bs' = Some cs" using Cons.IH bs' by simp
  moreover have "utf8_step (b @ bs') = Some (c, length b)" using b by (rule utf8_step_char)
  moreover have "b \<noteq> []" using b by (rule utf8_char_nonempty)
  ultimately show ?case unfolding bs by (subst utf8_decode.simps) simp
qed

lemma utf8_step_scalar: "utf8_step bs = Some (c, n) \<Longrightarrow> scalar c"
  by (auto simp: utf8_step_def scalar_def Let_def is_cont_def split: list.splits if_splits)

lemma utf8_decode_valid: "utf8_decode bs = Some cs \<Longrightarrow> valid_text cs"
proof (induction bs arbitrary: cs rule: utf8_decode.induct)
  case (1 bs)
  show ?case
  proof (cases "bs = []")
    case True
    then show ?thesis using "1.prems" by (simp add: valid_text_def utf8_decode_Nil)
  next
    case False
    then obtain c n cs' where s: "utf8_step bs = Some (c, n)"
      and d: "utf8_decode (drop n bs) = Some cs'" and cs: "cs = c # cs'"
      using "1.prems" by (subst (asm) utf8_decode.simps) (auto split: option.splits)
    have "valid_text cs'" using "1.IH" False s d by simp
    then show ?thesis using utf8_step_scalar [OF s] by (simp add: cs valid_text_def)
  qed
qed

lemma valid_universal_newlines: "valid_text cs \<Longrightarrow> valid_text (universal_newlines cs)"
  by (induction cs rule: universal_newlines.induct) (auto simp: valid_text_def scalar_def)

subsection \<open>Base64\<close>



lemma index_of_nth: "distinct xs \<Longrightarrow> k < length xs \<Longrightarrow> index_of (xs ! k) xs = Some k"
proof (induction xs arbitrary: k)
  case Nil
  then show ?case by simp
next
  case (Cons x xs)
  then show ?case by (cases k) auto
qed

lemma b64_alphabet_length: "length b64_alphabet = 64"
  by (simp add: b64_alphabet_def)

lemma b64_alphabet_distinct: "distinct b64_alphabet"
  by (simp add: b64_alphabet_def)

lemma b64_index_char: "k < 64 \<Longrightarrow> b64_index (b64_char k) = Some k"
  by (simp add: b64_index_def b64_char_def index_of_nth b64_alphabet_distinct b64_alphabet_length)

lemma b64_char_mem: "k < 64 \<Longrightarrow> b64_char k \<in> set b64_alphabet"
  by (simp add: b64_char_def b64_alphabet_length)

lemma b64_char_not_pad: "k < 64 \<Longrightarrow> b64_char k \<noteq> CHR ''=''"
proof -
  have "CHR ''='' \<notin> set b64_alphabet" by (simp add: b64_alphabet_def)
  then show "k < 64 \<Longrightarrow> b64_char k \<noteq> CHR ''=''" using b64_char_mem by metis
qed

lemma b64_char_ascii: "k < 64 \<Longrightarrow> (of_char (b64_char k) :: nat) < 128"
proof -
  have "\<forall>c\<in>set b64_alphabet. (of_char c :: nat) < 128" by (simp add: b64_alphabet_def)
  then show "k < 64 \<Longrightarrow> (of_char (b64_char k) :: nat) < 128" using b64_char_mem by blast
qed

lemma pack_less: "p < m \<Longrightarrow> q < n \<Longrightarrow> p * n + q < m * (n::nat)"
proof -
  assume p: "p < m" and q: "q < n"
  have "p * n + q < p * n + n" using q by simp
  also have "\<dots> = Suc p * n" by simp
  also have "\<dots> \<le> m * n" using p by (intro mult_le_mono1) simp
  finally show ?thesis .
qed

lemma pack_div: "q < n \<Longrightarrow> (p * n + q) div n = (p::nat)"
  by simp

lemma pack_mod: "q < n \<Longrightarrow> (p * n + q) mod n = (q::nat)"
  by simp

text \<open>The six-bit groups of three octets.\<close>

lemma sextet_bounds:
  fixes x y z :: nat
  assumes "x < 256" "y < 256" "z < 256"
  shows "x div 4 < 64" "x mod 4 * 16 < 64" "x mod 4 * 16 + y div 16 < 64"
    "y mod 16 * 4 < 64" "y mod 16 * 4 + z div 64 < 64" "z mod 64 < 64"
proof -
  have hi: "x div 4 < 64" "y div 16 < 16" "z div 64 < 4"
    using assms by (simp_all add: div_less_iff_less_mult)
  have lo: "x mod 4 < 4" "y mod 16 < 16" "z mod 64 < 64" by simp_all
  show "x div 4 < 64" by (rule hi)
  show "x mod 4 * 16 + y div 16 < 64" using pack_less [OF lo(1) hi(2)] by simp
  show "x mod 4 * 16 < 64" using pack_less [OF lo(1), of 0 16] by simp
  show "y mod 16 * 4 + z div 64 < 64" using pack_less [OF lo(2) hi(3)] by simp
  show "y mod 16 * 4 < 64" using pack_less [OF lo(2), of 0 4] by simp
  show "z mod 64 < 64" by (rule lo)
qed

lemmas char_sextets = sextet_bounds [OF of_char_less_256 of_char_less_256 of_char_less_256]

lemma b64encode_ascii: "list_all (\<lambda>b. (of_char b :: nat) < 128) (b64encode bs)"
proof (induction bs rule: b64encode.induct)
  case 1
  then show ?case by simp
next
  case (2 a)
  show ?case by (simp add: Let_def b64_char_ascii char_sextets)
next
  case (3 a b)
  show ?case by (simp add: Let_def b64_char_ascii char_sextets)
next
  case (4 a b c rest)
  show ?case using 4 by (simp add: Let_def b64_char_ascii char_sextets)
qed

lemma b64_quad_full:
  "p < 64 \<Longrightarrow> q < 64 \<Longrightarrow> r < 64 \<Longrightarrow> t < 64 \<Longrightarrow>
   b64_quad (b64_char p) (b64_char q) (b64_char r) (b64_char t) fin =
     Some [char_of (p * 4 + q div 16), char_of (q mod 16 * 16 + r div 4), char_of (r mod 4 * 64 + t)]"
  by (simp add: b64_quad_def b64_index_char b64_char_not_pad)

lemma b64_quad_pad1:
  "p < 64 \<Longrightarrow> q < 64 \<Longrightarrow> r < 64 \<Longrightarrow>
   b64_quad (b64_char p) (b64_char q) (b64_char r) (CHR ''='') True =
     Some [char_of (p * 4 + q div 16), char_of (q mod 16 * 16 + r div 4)]"
  by (simp add: b64_quad_def b64_index_char b64_char_not_pad)

lemma b64_quad_pad2:
  "p < 64 \<Longrightarrow> q < 64 \<Longrightarrow>
   b64_quad (b64_char p) (b64_char q) (CHR ''='') (CHR ''='') True =
     Some [char_of (p * 4 + q div 16)]"
  by (simp add: b64_quad_def b64_index_char)

lemma octets_back:
  fixes x y z :: nat
  assumes "y < 256" "z < 256"
  shows "x div 4 * 4 + (x mod 4 * 16 + y div 16) div 16 = x"
    "(x mod 4 * 16 + y div 16) mod 16 * 16 + (y mod 16 * 4 + z div 64) div 4 = y"
    "(y mod 16 * 4 + z div 64) mod 4 * 64 + z mod 64 = z"
    "x div 4 * 4 + (x mod 4 * 16) div 16 = x"
    "(x mod 4 * 16 + y div 16) mod 16 * 16 + (y mod 16 * 4) div 4 = y"
proof -
  have hi: "y div 16 < 16" "z div 64 < 4"
    using assms by (simp_all add: div_less_iff_less_mult)
  show "x div 4 * 4 + (x mod 4 * 16 + y div 16) div 16 = x"
    by (simp only: pack_div [OF hi(1)] div_mult_mod_eq)
  show "(x mod 4 * 16 + y div 16) mod 16 * 16 + (y mod 16 * 4 + z div 64) div 4 = y"
    by (simp only: pack_mod [OF hi(1)] pack_div [OF hi(2)] div_mult_mod_eq)
  show "(y mod 16 * 4 + z div 64) mod 4 * 64 + z mod 64 = z"
    by (simp only: pack_mod [OF hi(2)] div_mult_mod_eq)
  show "x div 4 * 4 + (x mod 4 * 16) div 16 = x"
    using pack_div [of 0 16 "x mod 4"] by simp
  show "(x mod 4 * 16 + y div 16) mod 16 * 16 + (y mod 16 * 4) div 4 = y"
    using pack_div [of 0 4 "y mod 16"] by (simp only: pack_mod [OF hi(1)]) simp
qed

lemmas char_octets = octets_back [OF of_char_less_256 of_char_less_256]

lemma octet_hi:
  fixes y z :: nat
  assumes "y < 256" "z < 256"
  shows "y div 16 < 16" "z div 64 < 4"
  using assms by (simp_all add: div_less_iff_less_mult)

lemmas char_hi = octet_hi [OF of_char_less_256 of_char_less_256]

lemma b64decode_encode: "b64decode (b64encode bs) = Some bs"
proof (induction bs rule: b64encode.induct)
  case 1
  then show ?case by simp
next
  case (2 a)
  show ?case
    by (simp add: Let_def b64_quad_pad2 char_sextets char_octets char_hi)
next
  case (3 a b)
  show ?case
    by (simp add: Let_def b64_quad_pad1 char_sextets char_octets char_hi)
next
  case (4 a b c rest)
  show ?case using 4
    by (simp add: Let_def b64_quad_full char_sextets char_octets char_hi)
qed

subsection \<open>Round trip\<close>

text \<open>
  C2. Every text of Unicode scalar values (every text a UTF-8 file can hold) is encoded,
  and decoding the result (Base64, then UTF-8) gives the text back.
\<close>

theorem transport_encoding_lossless:
  assumes "valid_text content"
  shows "\<exists>t. encode_content content = Some t \<and> decode_content t = Some content"
proof -
  obtain bs where bs: "utf8_encode content = Some bs"
    using assms utf8_encode_None_iff [of content] by (cases "utf8_encode content") auto
  define t :: pystr where "t = map of_char (b64encode bs)"
  have a: "ascii_decode (b64encode bs) = Some t"
    by (simp add: ascii_decode_def b64encode_ascii t_def)
  have e: "encode_content content = Some t"
    by (simp add: encode_content_def bs a)
  have l: "list_all (\<lambda>c. c < 128) t"
    using b64encode_ascii [of bs] by (simp add: t_def list_all_iff)
  have m: "map char_of t = b64encode bs"
    by (simp add: t_def comp_def)
  have d: "decode_content t = Some content"
    by (simp add: decode_content_def l m b64decode_encode utf8_decode_encode [OF bs])
  show ?thesis using e d by blast
qed

theorem transport_encoding_lossless_witness:
  "valid_text (py ''x = '' @ [233, 8364, 128512]) \<and>
   (\<exists>t. encode_content (py ''x = '' @ [233, 8364, 128512]) = Some t \<and>
        decode_content t = Some (py ''x = '' @ [233, 8364, 128512]))"
proof -
  have h: "valid_text (py ''x = '' @ [233, 8364, 128512])"
    by (simp add: valid_text_def scalar_def py_def)
  show ?thesis using h transport_encoding_lossless [OF h] by simp
qed

section \<open>Scanner and run\<close>

lemma read_text_valid: "read_text nd = Inr c \<Longrightarrow> valid_text c"
  by (auto simp: read_text_def split: node.splits option.splits
      intro: valid_universal_newlines utf8_decode_valid)

lemma encode_content_Some: "valid_text c \<Longrightarrow> \<exists>t. encode_content c = Some t"
  using utf8_encode_None_iff [of c]
  by (auto simp: encode_content_def ascii_decode_def b64encode_ascii split: option.splits)

lemma script_record_Inl: "read_text nd = Inl err \<Longrightarrow> script_record n nd = Inl err"
  by (simp add: script_record_def)

lemma script_record_Inr:
  assumes "read_text nd = Inr c"
  shows "\<exists>t. encode_content c = Some t \<and>
    script_record n nd =
      Inr \<lparr>name = n, content_b64 = t, userFiles = fst (parse_required_files c),
           processFiles = snd (parse_required_files c)\<rparr>"
proof -
  obtain t where t: "encode_content c = Some t"
    using encode_content_Some read_text_valid [OF assms] by blast
  then show ?thesis
    using assms
    by (auto simp: script_record_def encode_content_def split: option.splits prod.splits)
qed

lemma report_by_record:
  "(case script_record (fst e) (snd e) of
      Inr info \<Rightarrow> Collected (fst e) (userFiles info) (processFiles info)
    | Inl err \<Rightarrow> Error_reading (fst e) err) = file_report e"
proof (cases "read_text (snd e)")
  case (Inl err)
  then show ?thesis by (simp add: file_report_def script_record_Inl)
next
  case (Inr c)
  then show ?thesis using script_record_Inr [OF Inr, of "fst e"] by (auto simp: file_report_def)
qed

lemma records_Cons: "records (e # es) = records [e] @ records es"
  by (simp add: records_def)

lemma records_Nil: "records [] = []"
  by (simp add: records_def)

lemma try_file_accepted:
  assumes "stdout_accepts w (file_report (n, nd))"
  shows "try_file n nd scripts w =
    (None, scripts @ records [(n, nd)],
     w\<lparr>stdout := stdout w @ [file_report (n, nd)], ops := ops w @ [Op_read n]\<rparr>)"
proof (cases "script_record n nd")
  case (Inl err)
  then show ?thesis
    using assms report_by_record [of "(n, nd)"]
    by (simp add: try_file_def records_def print_def log_op_def)
next
  case (Inr info)
  then show ?thesis
    using assms report_by_record [of "(n, nd)"]
    by (simp add: try_file_def records_def print_def log_op_def)
qed

lemma try_file_frame:
  assumes "try_file n nd scripts w = (raised, scripts1, w1)"
  shows "listing w1 = listing w \<and> stdout_accepts w1 = stdout_accepts w \<and>
    ops w1 = ops w @ [Op_read n] \<and> scripts1 = scripts @ records [(n, nd)]"
proof (cases "script_record n nd")
  case (Inl err)
  then show ?thesis
    using assms
    by (auto simp: try_file_def Let_def records_def print_def log_op_def split: if_splits)
next
  case (Inr info)
  then show ?thesis
    using assms
    by (auto simp: try_file_def Let_def records_def print_def log_op_def split: if_splits)
qed

lemma collect_loop_accepted:
  assumes "list_all (\<lambda>e. stdout_accepts w (file_report e)) (filter (\<lambda>e. fst e \<noteq> self_name) es)"
  shows "collect_loop es scripts w =
     (Inr (scripts @ records (filter (\<lambda>e. fst e \<noteq> self_name) es)),
      w\<lparr>stdout := stdout w @ map file_report (filter (\<lambda>e. fst e \<noteq> self_name) es),
        ops := ops w @ map (\<lambda>e. Op_read (fst e)) (filter (\<lambda>e. fst e \<noteq> self_name) es)\<rparr>)"
  using assms
proof (induction es arbitrary: scripts w)
  case Nil
  then show ?case by (simp add: records_def)
next
  case (Cons e es)
  obtain n nd where e: "e = (n, nd)" by (cases e)
  show ?case
  proof (cases "n = self_name")
    case True
    then show ?thesis using Cons by (simp add: e)
  next
    case False
    have a: "stdout_accepts w (file_report (n, nd))"
      and r: "list_all (\<lambda>e. stdout_accepts w (file_report e))
                (filter (\<lambda>e. fst e \<noteq> self_name) es)"
      using Cons.prems False by (simp_all add: e)
    let ?w1 = "w\<lparr>stdout := stdout w @ [file_report (n, nd)], ops := ops w @ [Op_read n]\<rparr>"
    have "list_all (\<lambda>e. stdout_accepts ?w1 (file_report e))
            (filter (\<lambda>e. fst e \<noteq> self_name) es)"
      using r by simp
    then show ?thesis
      using False try_file_accepted [OF a, of scripts]
        Cons.IH [of ?w1 "scripts @ records [(n, nd)]"] records_Cons [of "(n, nd)" "filter (\<lambda>e. fst e \<noteq> self_name) es"]
      by (simp add: e)
  qed
qed

lemma collect_python_scripts_accepted:
  assumes "list_all (\<lambda>e. stdout_accepts w (file_report e)) (candidates w)"
  shows "collect_python_scripts w =
     (Inr (records (candidates w)),
      w\<lparr>stdout := stdout w @ map file_report (candidates w),
        ops := ops w @ Op_glob # map (\<lambda>e. Op_read (fst e)) (candidates w)\<rparr>)"
proof -
  have c: "filter (\<lambda>e. fst e \<noteq> self_name) (filter (\<lambda>e. glob_py (fst e)) (listing w)) =
    candidates w"
    by (simp add: candidates_def conj_commute)
  have "list_all (\<lambda>e. stdout_accepts (log_op Op_glob w) (file_report e))
          (filter (\<lambda>e. fst e \<noteq> self_name) (filter (\<lambda>e. glob_py (fst e)) (listing w)))"
    using assms unfolding c by (simp add: log_op_def)
  from collect_loop_accepted [OF this, of "[]"] show ?thesis
    unfolding collect_python_scripts_def c by (simp add: log_op_def)
qed

lemma collect_loop_general:
  "collect_loop es scripts w = (r, w') \<Longrightarrow>
     listing w' = listing w \<and> stdout_accepts w' = stdout_accepts w \<and>
     (\<exists>k. ops w' =
        ops w @ map (\<lambda>e. Op_read (fst e)) (take k (filter (\<lambda>e. fst e \<noteq> self_name) es))) \<and>
     (\<forall>ss. r = Inr ss \<longrightarrow>
        ss = scripts @ records (filter (\<lambda>e. fst e \<noteq> self_name) es) \<and>
        ops w' = ops w @ map (\<lambda>e. Op_read (fst e)) (filter (\<lambda>e. fst e \<noteq> self_name) es))"
proof (induction es arbitrary: scripts w)
  case Nil
  then show ?case by (auto simp: records_def)
next
  case (Cons e es)
  obtain n nd where e: "e = (n, nd)" by (cases e)
  show ?case
  proof (cases "n = self_name")
    case True
    then have "collect_loop es scripts w = (r, w')" using Cons.prems by (simp add: e)
    from Cons.IH [OF this] show ?thesis using True by (simp add: e)
  next
    case False
    obtain raised scripts1 w1 where t: "try_file n nd scripts w = (raised, scripts1, w1)"
      by (cases "try_file n nd scripts w") auto
    note f = try_file_frame [OF t]
    show ?thesis
    proof (cases raised)
      case (Some err)
      then have r: "r = Inl err" "w' = w1" using Cons.prems False t by (simp_all add: e)
      have "ops w1 = ops w @ map (\<lambda>e. Op_read (fst e))
          (take 1 (filter (\<lambda>e. fst e \<noteq> self_name) ((n, nd) # es)))"
        using f False by simp
      then have "\<exists>k. ops w1 = ops w @ map (\<lambda>e. Op_read (fst e))
          (take k (filter (\<lambda>e. fst e \<noteq> self_name) ((n, nd) # es)))" ..
      then show ?thesis using f unfolding e r by simp
    next
      case None
      then have "collect_loop es scripts1 w1 = (r, w')"
        using Cons.prems False t by (simp add: e)
      from Cons.IH [OF this] obtain k where
        i: "listing w' = listing w1" "stdout_accepts w' = stdout_accepts w1"
          "ops w' = ops w1 @ map (\<lambda>e. Op_read (fst e))
             (take k (filter (\<lambda>e. fst e \<noteq> self_name) es))"
          "\<forall>ss. r = Inr ss \<longrightarrow>
             ss = scripts1 @ records (filter (\<lambda>e. fst e \<noteq> self_name) es) \<and>
             ops w' = ops w1 @ map (\<lambda>e. Op_read (fst e)) (filter (\<lambda>e. fst e \<noteq> self_name) es)"
        by blast
      have "ops w' = ops w @ map (\<lambda>e. Op_read (fst e))
          (take (Suc k) (filter (\<lambda>e. fst e \<noteq> self_name) ((n, nd) # es)))"
        using i(3) f False by simp
      then have a: "\<exists>k. ops w' = ops w @ map (\<lambda>e. Op_read (fst e))
          (take k (filter (\<lambda>e. fst e \<noteq> self_name) ((n, nd) # es)))" ..
      have b: "\<forall>ss. r = Inr ss \<longrightarrow>
             ss = scripts @ records (filter (\<lambda>e. fst e \<noteq> self_name) ((n, nd) # es)) \<and>
             ops w' = ops w @ map (\<lambda>e. Op_read (fst e))
               (filter (\<lambda>e. fst e \<noteq> self_name) ((n, nd) # es))"
        using i(4) f False records_Cons [of "(n, nd)" "filter (\<lambda>e. fst e \<noteq> self_name) es"] by simp
      have c: "listing w' = listing w" "stdout_accepts w' = stdout_accepts w"
        using i(1,2) f by simp_all
      show ?thesis unfolding e using a b c by blast
    qed
  qed
qed

lemma collect_python_scripts_general:
  "listing (snd (collect_python_scripts w)) = listing w \<and>
   stdout_accepts (snd (collect_python_scripts w)) = stdout_accepts w \<and>
   (\<exists>k. ops (snd (collect_python_scripts w)) =
      ops w @ Op_glob # map (\<lambda>e. Op_read (fst e)) (take k (candidates w))) \<and>
   (\<forall>ss. fst (collect_python_scripts w) = Inr ss \<longrightarrow>
      ss = records (candidates w) \<and>
      ops (snd (collect_python_scripts w)) =
        ops w @ Op_glob # map (\<lambda>e. Op_read (fst e)) (candidates w))"
proof -
  have c: "filter (\<lambda>e. fst e \<noteq> self_name) (filter (\<lambda>e. glob_py (fst e)) (listing w)) =
    candidates w"
    by (simp add: candidates_def conj_commute)
  obtain r w' where "collect_python_scripts w = (r, w')"
    by (cases "collect_python_scripts w") auto
  then show ?thesis
    using collect_loop_general [of "filter (\<lambda>e. glob_py (fst e)) (listing w)" "[]"
        "log_op Op_glob w" r w']
    unfolding c by (simp add: collect_python_scripts_def log_op_def)
qed

lemma records_names:
  "map name (records es) = map fst (filter (\<lambda>e. readable (snd e)) es)"
proof (induction es)
  case Nil
  then show ?case by (simp add: records_def)
next
  case (Cons e es)
  show ?case
  proof (cases "read_text (snd e)")
    case (Inl err)
    then show ?thesis
      using Cons by (simp add: records_def readable_def script_record_Inl)
  next
    case (Inr c)
    then show ?thesis
      using Cons script_record_Inr [OF Inr, of "fst e"]
      by (auto simp: records_def readable_def)
  qed
qed

lemma candidate_names:
  "map fst (candidates w) =
     filter (\<lambda>n. glob_py n \<and> n \<noteq> self_name) (map fst (listing w))"
  by (simp add: candidates_def filter_map comp_def)

text \<open>Reading a file of ASCII octets without carriage return gives its characters.\<close>

lemma utf8_decode_ascii:
  "list_all (\<lambda>b. of_char b < (128 :: nat)) bs \<Longrightarrow> utf8_decode bs = Some (map of_char bs)"
proof (induction bs)
  case Nil
  then show ?case by (simp add: utf8_decode_Nil)
next
  case (Cons b bs)
  then show ?case
    by (subst utf8_decode.simps) (simp add: utf8_step_def Let_def)
qed

lemma universal_newlines_id: "13 \<notin> set cs \<Longrightarrow> universal_newlines cs = cs"
  by (induction cs rule: universal_newlines.induct) auto

lemma read_text_ascii:
  assumes "list_all (\<lambda>b. of_char b < (128 :: nat) \<and> of_char b \<noteq> (13 :: nat)) bs"
  shows "read_text (File bs) = Inr (py bs)"
proof -
  have "list_all (\<lambda>b. of_char b < (128 :: nat)) bs" "13 \<notin> set (map of_char bs :: nat list)"
    using assms by (auto simp: list_all_iff)
  then show ?thesis
    by (simp add: read_text_def utf8_decode_ascii universal_newlines_id py_def)
qed

subsection \<open>The example directories\<close>

lemma candidates_project_dir:
  "candidates project_dir =
     [(py ''greet.py'', File ''# user_files: data.csv\<newline>print(1)''),
      (py ''broken.py'', File [CHR 0xFF]),
      (py ''locked.py'', Unreadable)]"
  by (simp add: project_dir_def candidates_def glob_py_def self_name_def py_def)

lemma read_greet:
  "read_text (File ''# user_files: data.csv\<newline>print(1)'') =
     Inr (py ''# user_files: data.csv\<newline>print(1)'')"
  by (rule read_text_ascii) simp

lemma read_broken: "read_text (File [CHR 0xFF]) = Inl UnicodeDecodeError"
  by (simp add: read_text_def utf8_decode.simps utf8_step_def Let_def)

lemma read_locked: "read_text Unreadable = Inl OSError"
  by (simp add: read_text_def)

lemma parse_greet:
  "parse_required_files (py ''# user_files: data.csv\<newline>print(1)'') = ([py ''data.csv''], [])"
  by (simp add: parse_required_files_def user_files_regex_def process_files_regex_def
      file_list_def py_def starts_with_ci_def ci_eq_def py_isspace_def group_def py_strip_def)

lemma reports_project_dir:
  "map file_report (candidates project_dir) =
     [Collected (py ''greet.py'') [py ''data.csv''] [],
      Error_reading (py ''broken.py'') UnicodeDecodeError,
      Error_reading (py ''locked.py'') OSError]"
  by (simp add: candidates_project_dir file_report_def read_greet read_broken read_locked
      parse_greet)

lemma accepted_project_dir:
  "list_all (\<lambda>e. stdout_accepts project_dir (file_report e)) (candidates project_dir)"
proof -
  have "list_all utf8_stream (map file_report (candidates project_dir))"
    unfolding reports_project_dir by (simp add: valid_text_def scalar_def py_def)
  then show ?thesis by (simp add: list_all_iff project_dir_def)
qed


text \<open>
  C7. The scanner opens a prefix of the entries whose name ends in \<open>.py\<close> other than
  \<open>embed_scripts.py\<close>, in enumeration order, so it never opens its own file; when it returns
  its list, no record bears the name \<open>embed_scripts.py\<close> and every other such entry has
  been opened; and it does return when the stream encodes the report lines.
\<close>

theorem own_source_excluded:
  "(\<exists>k. ops (snd (collect_python_scripts w)) =
      ops w @ Op_glob #
        map Op_read (take k (filter (\<lambda>n. glob_py n \<and> n \<noteq> self_name) (map fst (listing w))))) \<and>
   (\<forall>scripts. fst (collect_python_scripts w) = Inr scripts \<longrightarrow>
      self_name \<notin> set (map name scripts) \<and>
      ops (snd (collect_python_scripts w)) =
        ops w @ Op_glob #
          map Op_read (filter (\<lambda>n. glob_py n \<and> n \<noteq> self_name) (map fst (listing w)))) \<and>
   (list_all (\<lambda>e. stdout_accepts w (file_report e)) (candidates w) \<longrightarrow>
      (\<exists>scripts. fst (collect_python_scripts w) = Inr scripts))"
proof -
  note g = collect_python_scripts_general [of w]
  have m: "map (\<lambda>e. Op_read (fst e)) es = map Op_read (map fst es)" for es :: "(pystr \<times> node) list"
    by simp
  from g obtain k where
    "ops (snd (collect_python_scripts w)) =
      ops w @ Op_glob # map (\<lambda>e. Op_read (fst e)) (take k (candidates w))"
    by blast
  then have "ops (snd (collect_python_scripts w)) =
      ops w @ Op_glob #
        map Op_read (take k (filter (\<lambda>n. glob_py n \<and> n \<noteq> self_name) (map fst (listing w))))"
    unfolding candidate_names [symmetric] by (simp add: take_map)
  then have a: "\<exists>k. ops (snd (collect_python_scripts w)) =
      ops w @ Op_glob #
        map Op_read (take k (filter (\<lambda>n. glob_py n \<and> n \<noteq> self_name) (map fst (listing w))))" ..
  have b: "self_name \<notin> set (map name scripts) \<and>
      ops (snd (collect_python_scripts w)) =
        ops w @ Op_glob #
          map Op_read (filter (\<lambda>n. glob_py n \<and> n \<noteq> self_name) (map fst (listing w)))"
    if "fst (collect_python_scripts w) = Inr scripts" for scripts
  proof -
    have s: "scripts = records (candidates w)"
      and o: "ops (snd (collect_python_scripts w)) =
        ops w @ Op_glob # map (\<lambda>e. Op_read (fst e)) (candidates w)"
      using g that by blast+
    have "set (map name scripts) \<subseteq> set (map fst (candidates w))"
      unfolding s records_names by auto
    then have "self_name \<notin> set (map name scripts)"
      unfolding candidate_names by auto
    moreover have "ops (snd (collect_python_scripts w)) =
        ops w @ Op_glob #
          map Op_read (filter (\<lambda>n. glob_py n \<and> n \<noteq> self_name) (map fst (listing w)))"
      using o unfolding candidate_names [symmetric] by simp
    ultimately show ?thesis ..
  qed
  have c: "\<exists>scripts. fst (collect_python_scripts w) = Inr scripts"
    if "list_all (\<lambda>e. stdout_accepts w (file_report e)) (candidates w)"
    using collect_python_scripts_accepted [OF that] by simp
  show ?thesis using a b c by blast
qed

theorem own_source_excluded_witness:
  "list_all (\<lambda>e. stdout_accepts project_dir (file_report e)) (candidates project_dir) \<and>
   (\<exists>scripts. fst (collect_python_scripts project_dir) = Inr scripts \<and>
      self_name \<notin> set (map name scripts)) \<and>
   ops (snd (collect_python_scripts project_dir)) =
     [Op_glob, Op_read (py ''greet.py''), Op_read (py ''broken.py''), Op_read (py ''locked.py'')]"
proof -
  note t = own_source_excluded [of project_dir]
  obtain scripts where s: "fst (collect_python_scripts project_dir) = Inr scripts"
    using t accepted_project_dir by blast
  then have "self_name \<notin> set (map name scripts)"
    and "ops (snd (collect_python_scripts project_dir)) =
        ops project_dir @ Op_glob #
          map Op_read (filter (\<lambda>n. glob_py n \<and> n \<noteq> self_name) (map fst (listing project_dir)))"
    using t by blast+
  moreover have "ops project_dir @ Op_glob #
      map Op_read (filter (\<lambda>n. glob_py n \<and> n \<noteq> self_name) (map fst (listing project_dir))) =
    [Op_glob, Op_read (py ''greet.py''), Op_read (py ''broken.py''), Op_read (py ''locked.py'')]"
    by (simp add: project_dir_def glob_py_def self_name_def py_def)
  ultimately show ?thesis using accepted_project_dir s by simp
qed




text \<open>
  C6. Without \<open>BrowserBox.html\<close> the run prints the error and returns: the only operation
  is the existence test, no file is read or written, and the directory is unchanged.
\<close>

theorem missing_target_aborts:
  assumes "map_of (listing w) input_file = None"
  shows "main w =
    (None, w\<lparr>stdout := stdout w @ [Target_not_found], ops := ops w @ [Op_exists input_file]\<rparr>)"
  using assms by (simp add: main_def print_def log_op_def)

theorem missing_target_aborts_witness:
  "map_of (listing dir_without_target) input_file = None \<and>
   main dir_without_target =
     (None, dir_without_target\<lparr>stdout := stdout dir_without_target @ [Target_not_found],
              ops := ops dir_without_target @ [Op_exists input_file]\<rparr>)"
proof -
  have h: "map_of (listing dir_without_target) input_file = None"
    by (simp add: dir_without_target_def input_file_def py_def)
  show ?thesis using h missing_target_aborts [OF h] by simp
qed



subsection \<open>The run that writes\<close>

lemma print_names_frame:
  "listing (snd (print_names ss w)) = listing w"
  by (induction ss arbitrary: w) (auto simp: print_def)

lemma print_names_accepted:
  "list_all (\<lambda>s. stdout_accepts w (Script_line (name s))) ss \<Longrightarrow>
   print_names ss w = (None, w\<lparr>stdout := stdout w @ map (\<lambda>s. Script_line (name s)) ss\<rparr>)"
  by (induction ss arbitrary: w) (simp_all add: print_def)

lemma map_of_write_file: "map_of (write_file n bs es) n = Some (File bs)"
  by (induction es) auto

lemma map_of_write_file_other: "k \<noteq> n \<Longrightarrow> map_of (write_file n bs es) k = map_of es k"
  by (induction es) auto

lemma create_written:
  assumes "map_of (listing w) input_file = Some nd" and "read_text nd = Inr doc"
    and "utf8_encode (patch_document scripts doc) = Some bs"
  shows "create_embedded_browserbox scripts w =
    (Inr output_file,
     w\<lparr>listing := write_file output_file bs (listing w),
       stdout := stdout w @ [Created output_file (length scripts)],
       ops := ops w @ [Op_read input_file, Op_write output_file]\<rparr>)"
  using assms by (simp add: create_embedded_browserbox_def Let_def print_def log_op_def)

lemma collect_in_main:
  assumes "list_all (\<lambda>e. stdout_accepts w (file_report e)) (candidates w)"
  shows "collect_python_scripts (log_op (Op_exists input_file) w) =
    (Inr (records (candidates w)),
     w\<lparr>stdout := stdout w @ map file_report (candidates w),
       ops := ops w @ [Op_exists input_file, Op_glob] @
         map (\<lambda>e. Op_read (fst e)) (candidates w)\<rparr>)"
proof -
  let ?w1 = "log_op (Op_exists input_file) w"
  have c: "candidates ?w1 = candidates w" by (simp add: candidates_def log_op_def)
  have "list_all (\<lambda>e. stdout_accepts ?w1 (file_report e)) (candidates ?w1)"
    using assms unfolding c by (simp add: log_op_def)
  from collect_python_scripts_accepted [OF this] show ?thesis
    unfolding c by (simp add: log_op_def)
qed

lemma print_names_listing:
  "print_names ss w = (r, w') \<Longrightarrow> listing w' = listing w"
  using print_names_frame [of ss w] by simp

text \<open>The run up to the loop that prints the names, when the collection is reported.\<close>

lemma main_until_names:
  assumes "map_of (listing w) input_file = Some nd" and "read_text nd = Inr doc"
    and "list_all (\<lambda>e. stdout_accepts w (file_report e)) (candidates w)"
    and "records (candidates w) \<noteq> []"
    and "utf8_encode (patch_document (records (candidates w)) doc) = Some bs"
  shows "main w =
    (case print_names (records (candidates w))
       (w\<lparr>listing := write_file output_file bs (listing w),
          stdout := stdout w @ map file_report (candidates w) @
            [Created output_file (length (records (candidates w))), Success output_file],
          ops := ops w @ [Op_exists input_file, Op_glob] @
            map (\<lambda>e. Op_read (fst e)) (candidates w) @
            [Op_read input_file, Op_write output_file]\<rparr>) of
       (None, w5) \<Rightarrow> print (Open_hint output_file) w5
     | (Some e, w5) \<Rightarrow> (Some e, w5))"
proof -
  define w2 where "w2 = w\<lparr>stdout := stdout w @ map file_report (candidates w),
       ops := ops w @ [Op_exists input_file, Op_glob] @
         map (\<lambda>e. Op_read (fst e)) (candidates w)\<rparr>"
  define w3 where "w3 = w2\<lparr>listing := write_file output_file bs (listing w2),
       stdout := stdout w2 @ [Created output_file (length (records (candidates w)))],
       ops := ops w2 @ [Op_read input_file, Op_write output_file]\<rparr>"
  define w4 where "w4 = w3\<lparr>stdout := stdout w3 @ [Success output_file]\<rparr>"
  have col: "collect_python_scripts (log_op (Op_exists input_file) w) =
      (Inr (records (candidates w)), w2)"
    unfolding w2_def by (rule collect_in_main [OF assms(3)])
  have l2: "map_of (listing w2) input_file = Some nd"
    using assms(1) by (simp add: w2_def)
  have cr: "create_embedded_browserbox (records (candidates w)) w2 = (Inr output_file, w3)"
    unfolding w3_def by (rule create_written [OF l2 assms(2) assms(5)])
  have ps: "print (Success output_file) w3 = (None, w4)"
    by (simp add: print_def w4_def)
  have "main w =
    (case print_names (records (candidates w)) w4 of
       (None, w5) \<Rightarrow> print (Open_hint output_file) w5
     | (Some e, w5) \<Rightarrow> (Some e, w5))"
    using assms(1,4) by (simp add: main_def Let_def col cr ps)
  moreover have "w4 = w\<lparr>listing := write_file output_file bs (listing w),
          stdout := stdout w @ map file_report (candidates w) @
            [Created output_file (length (records (candidates w))), Success output_file],
          ops := ops w @ [Op_exists input_file, Op_glob] @
            map (\<lambda>e. Op_read (fst e)) (candidates w) @
            [Op_read input_file, Op_write output_file]\<rparr>"
    by (simp add: w4_def w3_def w2_def)
  ultimately show ?thesis by simp
qed

lemma main_writes:
  assumes "map_of (listing w) input_file = Some nd" and "read_text nd = Inr doc"
    and "list_all (\<lambda>e. stdout_accepts w (file_report e)) (candidates w)"
    and "records (candidates w) \<noteq> []"
    and "utf8_encode (patch_document (records (candidates w)) doc) = Some bs"
  shows "listing (snd (main w)) = write_file output_file bs (listing w)"
proof -
  let ?w4 = "w\<lparr>listing := write_file output_file bs (listing w),
          stdout := stdout w @ map file_report (candidates w) @
            [Created output_file (length (records (candidates w))), Success output_file],
          ops := ops w @ [Op_exists input_file, Op_glob] @
            map (\<lambda>e. Op_read (fst e)) (candidates w) @
            [Op_read input_file, Op_write output_file]\<rparr>"
  obtain r5 w5 where pn: "print_names (records (candidates w)) ?w4 = (r5, w5)"
    by (cases "print_names (records (candidates w)) ?w4") auto
  have "listing w5 = write_file output_file bs (listing w)"
    using print_names_listing [OF pn] by simp
  then show ?thesis
    unfolding main_until_names [OF assms] pn
    by (cases r5) (simp_all add: print_def)
qed

lemma main_success:
  assumes "map_of (listing w) input_file = Some nd" and "read_text nd = Inr doc"
    and "list_all (\<lambda>e. stdout_accepts w (file_report e)) (candidates w)"
    and "records (candidates w) \<noteq> []"
    and "list_all (\<lambda>s. stdout_accepts w (Script_line (name s))) (records (candidates w))"
    and "utf8_encode (patch_document (records (candidates w)) doc) = Some bs"
  shows "main w =
    (None,
     w\<lparr>listing := write_file output_file bs (listing w),
       stdout := stdout w @ map file_report (candidates w) @
         [Created output_file (length (records (candidates w))), Success output_file] @
         map (\<lambda>s. Script_line (name s)) (records (candidates w)) @ [Open_hint output_file],
       ops := ops w @ [Op_exists input_file, Op_glob] @
         map (\<lambda>e. Op_read (fst e)) (candidates w) @
         [Op_read input_file, Op_write output_file]\<rparr>)"
proof -
  let ?w4 = "w\<lparr>listing := write_file output_file bs (listing w),
          stdout := stdout w @ map file_report (candidates w) @
            [Created output_file (length (records (candidates w))), Success output_file],
          ops := ops w @ [Op_exists input_file, Op_glob] @
            map (\<lambda>e. Op_read (fst e)) (candidates w) @
            [Op_read input_file, Op_write output_file]\<rparr>"
  have "list_all (\<lambda>s. stdout_accepts ?w4 (Script_line (name s))) (records (candidates w))"
    using assms(5) by simp
  from print_names_accepted [OF this] show ?thesis
    unfolding main_until_names [OF assms(1,2,3,4,6)]
    by (simp add: print_def)
qed

section \<open>Evaluation of the metadata extractor\<close>

text \<open>
  C3. A marker whose value is empty, followed by a line of code: \<open>\s*\<close> behind the colon
  also consumes the line break, so \<open>(.*)\<close> captures the next line of the file. The
  extractor returns the two tokens of that line instead of the empty sequence.
\<close>

theorem parse_required_files_empty_value:
  "parse_required_files (py ''# user_files:\<newline>import os, sys\<newline>'') =
     ([py ''import os'', py ''sys''], [])"
  by (simp add: parse_required_files_def user_files_regex_def process_files_regex_def
      file_list_def py_def starts_with_ci_def ci_eq_def py_isspace_def group_def py_strip_def)

end
